theory Spec2Isabelle
  imports Main "HOL-Library.Word"
begin

section \<open>The HZK font codec of \<^verbatim>\<open>src/hzk/hzk_gui.py\<close>\<close>

text \<open>
  Python integers are unbounded: pixel bands and bits are \<open>int\<close>. Sizes, grid indices and
  loop counters are never negative in the source and are \<open>nat\<close>. A \<open>bytearray\<close> is a list
  of bytes. Every exception the codec can raise is a constructor of \<open>error\<close>.
\<close>

type_synonym byte = "8 word"

datatype error =
    FileNotFound string
    \<comment> \<open>\<open>open\<close> / \<open>PIL.Image.open\<close> on a path that does not exist\<close>
  | BadDimensions string nat nat
    \<comment> \<open>\<open>AssertionError('Bad Dimensions: {img_name} ({img.width}x{img.height})')\<close>\<close>
  | InvalidImage string int int int
    \<comment> \<open>\<open>ValueError("Invalid image: '{img_name}' - image contains RGB value: r, g, b")\<close>\<close>
  | UnpackError nat
    \<comment> \<open>\<open>ValueError\<close> of \<open>_r, _g, _b, _a = ...\<close> on a pixel that has not four bands\<close>
  | PixelIndexError
    \<comment> \<open>\<open>IndexError\<close> of the pixel access object outside the image\<close>
  | NegativeCount
    \<comment> \<open>\<open>ValueError('negative count')\<close> of \<open>bytearray(n)\<close> with \<open>n < 0\<close>\<close>

subsection \<open>\<open>bits_to_byte_array\<close>\<close>

text \<open>
  Python's \<open>bytearray(n)\<close> on an integer \<open>n\<close>: a zero-filled array of \<open>n\<close> bytes (memory
  permitting), and a \<open>ValueError\<close> when \<open>n\<close> is negative.
\<close>

definition bytearray :: "int \<Rightarrow> error + byte list" where
  "bytearray n = (if n < 0 then Inl NegativeCount else Inr (replicate (nat n) 0))"

text \<open>
  \<^verbatim>\<open>
  remainder = len(bit_array) % 8
  if remainder != 0:
      for _ in range(8 - remainder):
          bit_array.append(0)
  return bytearray(sum(v << i for i, v in enumerate(bit_array[::-1])))
  \<close>
  The function appends to the list it was given, so the model returns the caller's list
  as it is after the call, next to the returned value (or the exception).
\<close>

definition bits_to_byte_array :: "int list \<Rightarrow> int list \<times> (error + byte list)" where
  "bits_to_byte_array bit_array =
     (let remainder = length bit_array mod 8;
          bit_array' = (if remainder \<noteq> 0
                        then bit_array @ replicate (8 - remainder) 0
                        else bit_array)
      in (bit_array',
          bytearray (sum_list (map (\<lambda>(i, v). v * 2 ^ i)
                                   (List.enumerate 0 (rev bit_array'))))))"

subsection \<open>The packing the specification describes\<close>

text \<open>
  Written from the specification's words, to compare with the code: pad with trailing
  0 bits to a multiple of 8, cut into consecutive groups of 8, and turn each group into
  one byte whose most significant bit is the first bit of the group.
\<close>

definition spec_pad :: "int list \<Rightarrow> int list" where
  "spec_pad bits = bits @ replicate ((8 - length bits mod 8) mod 8) 0"

fun spec_groups :: "int list \<Rightarrow> int list list" where
  "spec_groups [] = []"
| "spec_groups (b # bs) = take 8 (b # bs) # spec_groups (drop 7 bs)"

definition msb_first_value :: "int list \<Rightarrow> int" where
  "msb_first_value bits = foldl (\<lambda>acc b. 2 * acc + b) 0 bits"

definition spec_pack_bits :: "int list \<Rightarrow> byte list" where
  "spec_pack_bits bits =
     map (\<lambda>g. word_of_int (msb_first_value g)) (spec_groups (spec_pad bits))"

section \<open>The encoder and the decoder\<close>

subsection \<open>Files\<close>

text \<open>
  An atlas image as PIL hands it to the encoder: \<open>img.width\<close>, \<open>img.height\<close> and the
  pixel access object of \<open>img.load()\<close>. A pixel is the tuple of its band values, four of
  them in an RGBA image; the encoder unpacks four and fails on a tuple of another length.
  Reading outside the image raises \<open>IndexError\<close>.
\<close>

type_synonym pixel = "int list"

record image =
  img_width :: nat
  img_height :: nat
  img_pixels :: "nat \<times> nat \<Rightarrow> pixel"

definition pixel_array :: "image \<Rightarrow> nat \<times> nat \<Rightarrow> error + pixel" where
  "pixel_array img xy =
     (case xy of (x, y) \<Rightarrow>
        if x < img_width img \<and> y < img_height img then Inr (img_pixels img (x, y))
        else Inl PixelIndexError)"

text \<open>
  The file system: the images PIL can open, and the packed font files, each by path.
  Opening the output file itself is taken to succeed, and the output path is taken not to
  be the path of an atlas.
\<close>

record files =
  pngs :: "string \<rightharpoonup> image"
  hzks :: "string \<rightharpoonup> byte list"

subsection \<open>File names\<close>

definition PIXEL_WIDTHS :: "nat list" where
  "PIXEL_WIDTHS = [6, 8, 10, 12, 14, 16, 20, 24, 28, 32]"

text \<open>Python's \<open>f'{n}'\<close> on a non-negative integer, and \<open>f'{i:02}'\<close>.\<close>

fun decimal :: "nat \<Rightarrow> string" where
  "decimal n = (if n < 10 then [''0123456789'' ! n]
                else decimal (n div 10) @ [''0123456789'' ! (n mod 10)])"

declare decimal.simps [simp del]

definition decimal02 :: "nat \<Rightarrow> string" where
  "decimal02 n = (let s = decimal n in replicate (2 - length s) (CHR ''0'') @ s)"

text \<open>\<^verbatim>\<open>f'{input_image_dir}/0x{i:02}_{width}x{height}_0-127.png'\<close>\<close>

definition img_name_of :: "string \<Rightarrow> nat \<Rightarrow> nat \<Rightarrow> nat \<Rightarrow> string" where
  "img_name_of input_image_dir i width height =
     input_image_dir @ ''/0x'' @ decimal02 i @ ''_'' @ decimal width @ ''x'' @ decimal height
       @ ''_0-127.png''"

subsection \<open>Loops that write to the output file\<close>

text \<open>
  The output file is only appended to. Every part of the encoder is therefore modelled
  by what it appends, in order, and by the exception that ends it, if one does: bytes
  written before an exception stay written. A \<open>for\<close> loop runs its body on each element in
  turn and stops at the first exception.
\<close>

type_synonym run = "byte list \<times> error option"

fun for_each :: "'a list \<Rightarrow> ('a \<Rightarrow> run) \<Rightarrow> run" where
  "for_each [] body = ([], None)"
| "for_each (x # xs) body =
     (case body x of
        (out, Some e) \<Rightarrow> (out, Some e)
      | (out, None) \<Rightarrow> (case for_each xs body of (out', r) \<Rightarrow> (out @ out', r)))"

subsection \<open>\<open>encode_hzk_file\<close>\<close>

text \<open>
  One pass of the innermost loop body, for the pixel at \<open>(x, y)\<close>:
  \<^verbatim>\<open>
  _r, _g, _b, _a = pixel_array[x, y]
  if (_r, _g, _b) == (0, 0, 0):          bit_array.append(1)
  elif (_r, _g, _b) == (255, 255, 255):  bit_array.append(0)
  else: raise ValueError(...)
  \<close>
  The result is the bit appended.
\<close>

definition sample :: "string \<Rightarrow> image \<Rightarrow> nat \<Rightarrow> nat \<Rightarrow> error + int" where
  "sample img_name img x y =
     (case pixel_array img (x, y) of
        Inl e \<Rightarrow> Inl e
      | Inr px \<Rightarrow>
          (case px of
             [r, g, b, a] \<Rightarrow>
               if (r, g, b) = (0, 0, 0) then Inr 1
               else if (r, g, b) = (255, 255, 255) then Inr 0
               else Inl (InvalidImage img_name r g b)
           | _ \<Rightarrow> Inl (UnpackError (length px))))"

text \<open>The loop \<open>for w in range(1, width)\<close> that fills \<open>bit_array\<close>.\<close>

fun collect_bits ::
  "nat list \<Rightarrow> (nat \<Rightarrow> error + int) \<Rightarrow> int list \<Rightarrow> error + int list" where
  "collect_bits [] f bit_array = Inr bit_array"
| "collect_bits (w # ws) f bit_array =
     (case f w of
        Inl e \<Rightarrow> Inl e
      | Inr b \<Rightarrow> collect_bits ws f (bit_array @ [b]))"

text \<open>
  The body of \<open>for h in range(1, height)\<close>: a fresh \<open>bit_array\<close>, the \<open>w\<close> loop, and
  \<open>output_hzk_file.write(bits_to_byte_array(bit_array))\<close>.
\<close>

definition encode_row ::
  "string \<Rightarrow> image \<Rightarrow> nat \<Rightarrow> nat \<Rightarrow> nat \<Rightarrow> nat \<Rightarrow> nat \<Rightarrow> run" where
  "encode_row img_name img width height row col h =
     (case collect_bits [1..<width]
             (\<lambda>w. sample img_name img (col * (width + 1) + w) (row * (height + 1) + h)) [] of
        Inl e \<Rightarrow> ([], Some e)
      | Inr bit_array \<Rightarrow>
          (case snd (bits_to_byte_array bit_array) of
             Inl e \<Rightarrow> ([], Some e)
           | Inr bytes \<Rightarrow> (bytes, None)))"

definition encode_glyph ::
  "string \<Rightarrow> image \<Rightarrow> nat \<Rightarrow> nat \<Rightarrow> nat \<Rightarrow> nat \<Rightarrow> run" where
  "encode_glyph img_name img width height row col =
     for_each [1..<height] (encode_row img_name img width height row col)"

text \<open>
  The body of \<open>for col in range(16)\<close>, with its
  \<open>if i == 9 and row == 7 and col == 15: continue\<close>.
\<close>

definition encode_slot ::
  "string \<Rightarrow> image \<Rightarrow> nat \<Rightarrow> nat \<Rightarrow> nat \<Rightarrow> nat \<Rightarrow> nat \<Rightarrow> run" where
  "encode_slot img_name img i width height row col =
     (if i = 9 \<and> row = 7 \<and> col = 15 then ([], None)
      else encode_glyph img_name img width height row col)"

definition encode_atlas ::
  "string \<Rightarrow> image \<Rightarrow> nat \<Rightarrow> nat \<Rightarrow> nat \<Rightarrow> run" where
  "encode_atlas img_name img i width height =
     for_each [0..<8] (\<lambda>row.
       for_each [0..<16] (\<lambda>col. encode_slot img_name img i width height row col))"

text \<open>
  The body of \<open>for i, width in enumerate(PIXEL_WIDTHS)\<close>: the expected dimensions, the
  file name, opening the image, the two assertions (either failure is raised again as the
  \<open>AssertionError\<close> that names the file; assertions are enabled, as they are unless the
  interpreter runs with \<open>-O\<close>), and the grid loops.
\<close>

definition encode_level ::
  "(string \<rightharpoonup> image) \<Rightarrow> string \<Rightarrow> nat \<Rightarrow> nat \<Rightarrow> run" where
  "encode_level dir input_image_dir i width =
     (let height = width * 2;
          image_width = ((width + 1) * 16) + 1;
          image_height = ((height + 1) * 8) + 1;
          img_name = img_name_of input_image_dir i width height
      in case dir img_name of
           None \<Rightarrow> ([], Some (FileNotFound img_name))
         | Some img \<Rightarrow>
             if \<not> (img_height img = image_height \<and> img_width img = image_width)
             then ([], Some (BadDimensions img_name (img_width img) (img_height img)))
             else encode_atlas img_name img i width height)"

definition encode_levels :: "(string \<rightharpoonup> image) \<Rightarrow> string \<Rightarrow> run" where
  "encode_levels dir input_image_dir =
     for_each (List.enumerate 0 PIXEL_WIDTHS)
       (\<lambda>(i, width). encode_level dir input_image_dir i width)"

text \<open>
  \<open>encode_hzk_file\<close>: the output file is opened with mode \<open>'wb'\<close>, so what it holds
  afterwards is what this run wrote. The result is the file system after the run and the
  exception, if the run raised one.
\<close>

definition encode_hzk_file ::
  "files \<Rightarrow> string \<Rightarrow> string \<Rightarrow> files \<times> error option" where
  "encode_hzk_file fs input_image_dir output_filename =
     (case encode_levels (pngs fs) input_image_dir of
        (out, exc) \<Rightarrow> (fs\<lparr>hzks := (hzks fs)(output_filename \<mapsto> out)\<rparr>, exc))"

subsection \<open>\<open>decode_hzk_file\<close>\<close>

text \<open>
  \<^verbatim>\<open>
  input_hzk_file = open(input_hzk_filename, 'rb')
  for i, width in enumerate(PIXEL_WIDTHS):
      height = width * 2
      return
  \<close>
  The first pass of the loop returns. Nothing is read from the file and nothing is
  written.
\<close>

definition decode_hzk_file ::
  "files \<Rightarrow> string \<Rightarrow> string \<Rightarrow> files \<times> error option" where
  "decode_hzk_file fs input_hzk_filename output_dir =
     (case hzks fs input_hzk_filename of
        None \<Rightarrow> (fs, Some (FileNotFound input_hzk_filename))
      | Some input_hzk_file \<Rightarrow>
          (case List.enumerate 0 PIXEL_WIDTHS of
             [] \<Rightarrow> (fs, None)
           | (i, width) # _ \<Rightarrow> (let height = width * 2 in (fs, None))))"

subsection \<open>Auxiliary notions for the statements\<close>

text \<open>The image has the dimensions the encoder expects of a level.\<close>

definition fits :: "image \<Rightarrow> nat \<Rightarrow> nat \<Rightarrow> bool" where
  "fits img width height \<longleftrightarrow>
     img_width img = (width + 1) * 16 + 1 \<and> img_height img = (height + 1) * 8 + 1"

text \<open>
  Atlases to run the encoder on: the image of a level with the expected dimensions and
  given pixels, and a directory \<open>in\<close> holding an all-white opaque atlas for each of the ten
  levels under the name the encoder looks for.
\<close>

definition atlas_of :: "nat \<Rightarrow> (nat \<times> nat \<Rightarrow> pixel) \<Rightarrow> image" where
  "atlas_of width px =
     \<lparr>img_width = (width + 1) * 16 + 1,
      img_height = (width * 2 + 1) * 8 + 1,
      img_pixels = px\<rparr>"

definition white_atlases :: "string \<rightharpoonup> image" where
  "white_atlases =
     [''in/0x00_6x12_0-127.png'' \<mapsto> atlas_of 6 (\<lambda>_. [255, 255, 255, 255]),
      ''in/0x01_8x16_0-127.png'' \<mapsto> atlas_of 8 (\<lambda>_. [255, 255, 255, 255]),
      ''in/0x02_10x20_0-127.png'' \<mapsto> atlas_of 10 (\<lambda>_. [255, 255, 255, 255]),
      ''in/0x03_12x24_0-127.png'' \<mapsto> atlas_of 12 (\<lambda>_. [255, 255, 255, 255]),
      ''in/0x04_14x28_0-127.png'' \<mapsto> atlas_of 14 (\<lambda>_. [255, 255, 255, 255]),
      ''in/0x05_16x32_0-127.png'' \<mapsto> atlas_of 16 (\<lambda>_. [255, 255, 255, 255]),
      ''in/0x06_20x40_0-127.png'' \<mapsto> atlas_of 20 (\<lambda>_. [255, 255, 255, 255]),
      ''in/0x07_24x48_0-127.png'' \<mapsto> atlas_of 24 (\<lambda>_. [255, 255, 255, 255]),
      ''in/0x08_28x56_0-127.png'' \<mapsto> atlas_of 28 (\<lambda>_. [255, 255, 255, 255]),
      ''in/0x09_32x64_0-127.png'' \<mapsto> atlas_of 32 (\<lambda>_. [255, 255, 255, 255])]"

text \<open>
  The length the specification gives for the encoding of all-white atlases: per level,
  the number of packed glyphs (127 at the level with the reserved hole, 128 elsewhere)
  times the rows of a glyph (the encoder's \<open>range(1, height)\<close>) times
  \<open>ceil((width - 1) / 8)\<close>.
\<close>

definition spec_level_bytes :: "nat \<Rightarrow> nat \<Rightarrow> nat" where
  "spec_level_bytes i width =
     (if i = 9 then 127 else 128) * (width * 2 - 1) * ((width - 1 + 7) div 8)"

definition spec_total_bytes :: nat where
  "spec_total_bytes =
     sum_list (map (\<lambda>(i, width). spec_level_bytes i width) (List.enumerate 0 PIXEL_WIDTHS))"

section \<open>Properties of \<open>bits_to_byte_array\<close>\<close>

lemma replicate_numeral_unfold:
  "replicate (numeral k) x = x # replicate (pred_numeral k) x"
  by (simp add: numeral_eq_Suc)

lemma weighted_sum_zero:
  "\<forall>v \<in> set xs. v = 0 \<Longrightarrow>
     sum_list (map (\<lambda>(i, v). v * 2 ^ i) (List.enumerate n xs)) = (0::int)"
  by (induction xs arbitrary: n) simp_all

lemma weighted_sum_nonneg:
  "\<forall>v \<in> set xs. 0 \<le> v \<Longrightarrow>
     (0::int) \<le> sum_list (map (\<lambda>(i, v). v * 2 ^ i) (List.enumerate n xs))"
  by (induction xs arbitrary: n) simp_all

lemma weighted_sum_shift:
  "sum_list (map (\<lambda>(i, v). v * 2 ^ i) (List.enumerate (Suc n) xs))
     = (2::int) * sum_list (map (\<lambda>(i, v). v * 2 ^ i) (List.enumerate n xs))"
  by (induction xs arbitrary: n) (simp_all add: algebra_simps)

lemma weighted_sum_msb_first:
  "sum_list (map (\<lambda>(i, v). v * 2 ^ i) (List.enumerate 0 (rev xs))) = msb_first_value xs"
proof (induction xs rule: rev_induct)
  case Nil
  show ?case by (simp add: msb_first_value_def)
next
  case (snoc x xs)
  have "sum_list (map (\<lambda>(i, v). v * 2 ^ i) (List.enumerate 0 (rev (xs @ [x]))))
          = x + sum_list (map (\<lambda>(i, v). v * 2 ^ i) (List.enumerate (Suc 0) (rev xs)))"
    by simp
  also have "\<dots> = x + 2 * msb_first_value xs"
    by (simp only: weighted_sum_shift snoc.IH)
  also have "\<dots> = msb_first_value (xs @ [x])"
    by (simp add: msb_first_value_def)
  finally show ?case .
qed

text \<open>
  What the code returns: as many zero bytes as the padded bit list, read as a binary
  number with its first bit most significant, says.
\<close>

lemma bits_to_byte_array_value:
  "snd (bits_to_byte_array bits) = bytearray (msb_first_value (fst (bits_to_byte_array bits)))"
  by (simp add: bits_to_byte_array_def Let_def weighted_sum_msb_first)

lemma bits_to_byte_array_list:
  "fst (bits_to_byte_array bits) = bits @ replicate ((8 - length bits mod 8) mod 8) 0"
  by (simp add: bits_to_byte_array_def Let_def)

lemma bits_to_byte_array_bits_ok:
  assumes "\<forall>v \<in> set bits. v = 0 \<or> v = 1"
  shows "\<exists>n. snd (bits_to_byte_array bits) = Inr (replicate n 0)"
proof -
  have "\<forall>v \<in> set (rev (fst (bits_to_byte_array bits))). 0 \<le> v"
    using assms by (auto simp: bits_to_byte_array_list)
  then have "0 \<le> sum_list (map (\<lambda>(i, v). v * 2 ^ i)
                      (List.enumerate 0 (rev (fst (bits_to_byte_array bits)))))"
    by (rule weighted_sum_nonneg)
  then show ?thesis
    by (simp add: bits_to_byte_array_def Let_def bytearray_def split: if_splits)
qed

lemma bits_to_byte_array_zeros:
  assumes "\<forall>b \<in> set bits. b = 0"
  shows "snd (bits_to_byte_array bits) = Inr []"
proof -
  have "\<forall>v \<in> set (rev (fst (bits_to_byte_array bits))). v = 0"
    using assms by (auto simp: bits_to_byte_array_list)
  then have "sum_list (map (\<lambda>(i, v). v * 2 ^ i)
                 (List.enumerate 0 (rev (fst (bits_to_byte_array bits))))) = 0"
    by (rule weighted_sum_zero)
  then show ?thesis
    by (simp add: bits_to_byte_array_def Let_def bytearray_def split: if_splits)
qed

text \<open>
  Claim C1. The specification has \<open>bits_to_byte_array\<close> pack each group of 8 bits into one
  byte, first bit most significant, so that the single bit 1 gives the one byte 0x80.
  The code gives 128 zero bytes there: it hands the integer value of the padded bits to
  \<open>bytearray\<close>, which makes an array of that many zero bytes.
\<close>

theorem bits_to_byte_array_single_one:
  "bits_to_byte_array [1] = ([1, 0, 0, 0, 0, 0, 0, 0], Inr (replicate 128 0))
   \<and> spec_pack_bits [1] = [0x80]
   \<and> snd (bits_to_byte_array [1]) \<noteq> Inr (spec_pack_bits [1])"
  by code_simp

text \<open>
  Claim C9, as stated: the call leaves the caller's list unchanged. It does not: a list
  of one bit has eight elements after the call.
\<close>

theorem bits_to_byte_array_mutates_counterexample:
  "fst (bits_to_byte_array [1]) \<noteq> [1] \<and> length (fst (bits_to_byte_array [1])) = 8"
  by (simp add: bits_to_byte_array_list)

text \<open>
  Claim C9, amended. After the call the caller's list is the list before the call
  followed by \<open>(8 - len mod 8) mod 8\<close> bits 0, whether the call returns or raises; it is
  unchanged exactly when its length was a multiple of 8. The call's only other effect is
  the value it returns, a function of the list alone.
\<close>

theorem bits_to_byte_array_frame:
  "fst (bits_to_byte_array bits) = bits @ replicate ((8 - length bits mod 8) mod 8) 0
   \<and> (fst (bits_to_byte_array bits) = bits \<longleftrightarrow> length bits mod 8 = 0)"
proof -
  have "length bits mod 8 < 8" by simp
  then have "((8 - length bits mod 8) mod 8 = 0) = (length bits mod 8 = 0)"
    by (cases "length bits mod 8 = 0") simp_all
  then show ?thesis
    by (simp add: bits_to_byte_array_list)
qed

theorem bits_to_byte_array_frame_witness:
  "fst (bits_to_byte_array [1, 1, 0]) = [1, 1, 0, 0, 0, 0, 0, 0]
   \<and> fst (bits_to_byte_array [1, 0, 1, 0, 1, 0, 1, 0]) = [1, 0, 1, 0, 1, 0, 1, 0]"
  using bits_to_byte_array_frame [of "[1, 1, 0]"]
    bits_to_byte_array_frame [of "[1, 0, 1, 0, 1, 0, 1, 0]"]
  by (simp add: replicate_numeral_unfold)

text \<open>
  Claim C10. On a list of 0 bits only, of any length, \<open>bits_to_byte_array\<close> returns the
  empty byte sequence.
\<close>

theorem bits_to_byte_array_all_zero:
  "\<forall>b \<in> set bits. b = 0 \<Longrightarrow> snd (bits_to_byte_array bits) = Inr []"
  by (rule bits_to_byte_array_zeros)

theorem bits_to_byte_array_all_zero_witness:
  "snd (bits_to_byte_array (replicate 16 0)) = Inr []
   \<and> length (replicate 16 (0::int)) = 16"
  using bits_to_byte_array_all_zero [of "replicate 16 0"] by simp

section \<open>Properties of the loops\<close>

lemma for_each_cong_on:
  "(\<And>x. x \<in> set xs \<Longrightarrow> body x = body' x) \<Longrightarrow> for_each xs body = for_each xs body'"
  by (induction xs) simp_all

lemma for_each_silent:
  "(\<And>x. x \<in> set xs \<Longrightarrow> body x = ([], None)) \<Longrightarrow> for_each xs body = ([], None)"
  by (induction xs) simp_all

lemma for_each_completes:
  "(\<And>x. x \<in> set xs \<Longrightarrow> snd (body x) = None) \<Longrightarrow>
     for_each xs body = (concat (map (\<lambda>x. fst (body x)) xs), None)"
proof (induction xs)
  case Nil
  show ?case by simp
next
  case (Cons x xs)
  obtain out where bx: "body x = (out, None)"
    using Cons.prems [of x] by (cases "body x") simp
  have "for_each xs body = (concat (map (\<lambda>x. fst (body x)) xs), None)"
    using Cons.IH Cons.prems by simp
  with bx show ?case by simp
qed

lemma for_each_error_from_body:
  "snd (for_each xs body) = Some e \<Longrightarrow> \<exists>x \<in> set xs. snd (body x) = Some e"
proof (induction xs)
  case Nil
  then show ?case by simp
next
  case (Cons x xs)
  obtain out r where bx: "body x = (out, r)" by (cases "body x")
  show ?case
  proof (cases r)
    case None
    with bx Cons.prems have "snd (for_each xs body) = Some e"
      by (simp split: prod.splits)
    with Cons.IH show ?thesis by auto
  next
    case (Some e')
    with bx Cons.prems show ?thesis by simp
  qed
qed


lemma for_each_stops:
  "k < length xs \<Longrightarrow> (\<And>j. j < k \<Longrightarrow> snd (body (xs ! j)) = None) \<Longrightarrow>
   snd (body (xs ! k)) = Some e \<Longrightarrow>
     for_each xs body
       = (concat (map (\<lambda>x. fst (body x)) (take k xs)) @ fst (body (xs ! k)), Some e)"
proof (induction xs arbitrary: k)
  case Nil
  then show ?case by simp
next
  case (Cons x xs)
  show ?case
  proof (cases k)
    case 0
    with Cons.prems show ?thesis by (cases "body x") simp
  next
    case (Suc k')
    have "snd (body x) = None" using Cons.prems(2) [of 0] Suc by simp
    then obtain out where bx: "body x = (out, None)" by (cases "body x") simp
    have "for_each xs body
            = (concat (map (\<lambda>x. fst (body x)) (take k' xs)) @ fst (body (xs ! k')), Some e)"
    proof (rule Cons.IH)
      show "k' < length xs" using Cons.prems(1) Suc by simp
      show "snd (body (xs ! j)) = None" if "j < k'" for j
        using Cons.prems(2) [of "Suc j"] that Suc by simp
      show "snd (body (xs ! k')) = Some e" using Cons.prems(3) Suc by simp
    qed
    with bx Suc show ?thesis by simp
  qed
qed


lemma collect_bits_constant:
  "(\<And>w. w \<in> set ws \<Longrightarrow> f w = Inr b) \<Longrightarrow>
     collect_bits ws f acc = Inr (acc @ replicate (length ws) b)"
  by (induction ws arbitrary: acc) (simp_all add: replicate_app_Cons_same)

lemma collect_bits_error_from_body:
  "collect_bits ws f acc = Inl e \<Longrightarrow> \<exists>w \<in> set ws. f w = Inl e"
  by (induction ws arbitrary: acc) (auto split: sum.splits)


lemma collect_bits_values:
  "collect_bits ws f acc = Inr bits \<Longrightarrow>
     \<forall>v \<in> set bits. v \<in> set acc \<or> (\<exists>w \<in> set ws. f w = Inr v)"
proof (induction ws arbitrary: acc)
  case Nil
  then show ?case by simp
next
  case (Cons w ws)
  then obtain b where fw: "f w = Inr b" and rest: "collect_bits ws f (acc @ [b]) = Inr bits"
    by (auto split: sum.splits)
  from Cons.IH [OF rest] fw show ?case by auto
qed

lemma cell_offset_in_bounds:
  fixes a b m n :: nat
  assumes "a < n" and "b < m"
  shows "a * (m + 1) + b < (m + 1) * n + 1"
proof -
  have "a * (m + 1) + b < a * (m + 1) + (m + 1)" using assms(2) by simp
  also have "\<dots> = (a + 1) * (m + 1)" by simp
  also have "\<dots> \<le> n * (m + 1)" using assms(1) by (intro mult_le_mono1) simp
  finally show ?thesis by (simp add: mult.commute)
qed

lemma pixel_array_in_cell:
  assumes "fits img width height" and "row < 8" and "col < 16" and "h < height" and "w < width"
  shows "pixel_array img (col * (width + 1) + w, row * (height + 1) + h)
           = Inr (img_pixels img (col * (width + 1) + w, row * (height + 1) + h))"
  using cell_offset_in_bounds [OF assms(3) assms(5)] cell_offset_in_bounds [OF assms(2) assms(4)]
    assms(1)
  by (simp add: pixel_array_def fits_def)

lemma sample_bit: "sample img_name img x y = Inr b \<Longrightarrow> b = 0 \<or> b = 1"
  by (auto simp: sample_def split: sum.splits list.splits if_splits)

lemma sample_rgba:
  assumes "pixel_array img (x, y) = Inr [r, g, b, a]"
  shows "sample img_name img x y =
           (if (r, g, b) = (0, 0, 0) then Inr 1
            else if (r, g, b) = (255, 255, 255) then Inr 0
            else Inl (InvalidImage img_name r g b))"
  using assms by (simp add: sample_def)

lemma collect_bits_sample_bits:
  assumes "collect_bits ws (\<lambda>w. sample img_name img (fx w) y) [] = Inr bits"
  shows "\<forall>v \<in> set bits. v = 0 \<or> v = 1"
  using collect_bits_values [OF assms] sample_bit by fastforce

lemma encode_row_result:
  assumes "collect_bits [1..<width]
             (\<lambda>w. sample img_name img (col * (width + 1) + w) (row * (height + 1) + h)) []
           = Inr bits"
  shows "encode_row img_name img width height row col h
           = (replicate (nat (msb_first_value (fst (bits_to_byte_array bits)))) 0, None)"
proof -
  have bits01: "\<forall>v \<in> set bits. v = 0 \<or> v = 1"
    using assms by (rule collect_bits_sample_bits)
  then obtain n where n: "snd (bits_to_byte_array bits) = Inr (replicate n 0)"
    using bits_to_byte_array_bits_ok by blast
  then have "msb_first_value (fst (bits_to_byte_array bits)) \<ge> 0"
    by (simp add: bits_to_byte_array_value bytearray_def split: if_splits)
  then have "snd (bits_to_byte_array bits)
      = Inr (replicate (nat (msb_first_value (fst (bits_to_byte_array bits)))) 0)"
    by (simp add: bits_to_byte_array_value bytearray_def)
  with assms show ?thesis by (simp add: encode_row_def)
qed

lemma encode_row_error:
  assumes "snd (encode_row img_name img width height row col h) = Some e"
  shows "\<exists>w \<in> set [1..<width].
           sample img_name img (col * (width + 1) + w) (row * (height + 1) + h) = Inl e"
proof (cases "collect_bits [1..<width]
             (\<lambda>w. sample img_name img (col * (width + 1) + w) (row * (height + 1) + h)) []")
  case (Inl e')
  with assms have "e' = e" by (simp add: encode_row_def)
  with Inl show ?thesis using collect_bits_error_from_body by fast
next
  case (Inr bits)
  from encode_row_result [OF Inr] assms show ?thesis by simp
qed


lemma encode_row_white:
  assumes "\<And>w. w \<in> set [1..<width] \<Longrightarrow>
      \<exists>a. pixel_array img (col * (width + 1) + w, row * (height + 1) + h) = Inr [255, 255, 255, a]"
  shows "encode_row img_name img width height row col h = ([], None)"
proof -
  have "collect_bits [1..<width]
      (\<lambda>w. sample img_name img (col * (width + 1) + w) (row * (height + 1) + h)) []
        = Inr ([] @ replicate (length [1..<width]) 0)"
  proof (rule collect_bits_constant)
    fix w assume "w \<in> set [1..<width]"
    from assms [OF this] obtain a where
      "pixel_array img (col * (width + 1) + w, row * (height + 1) + h) = Inr [255, 255, 255, a]"
      by blast
    from sample_rgba [OF this]
    show "sample img_name img (col * (width + 1) + w) (row * (height + 1) + h) = Inr 0"
      by simp
  qed
  moreover have "snd (bits_to_byte_array ([] @ replicate (length [1..<width]) 0)) = Inr []"
    by (rule bits_to_byte_array_zeros) simp
  ultimately show ?thesis by (simp add: encode_row_def)
qed

lemma encode_atlas_white:
  assumes fits: "fits img width height"
    and white: "\<forall>x y. x < img_width img \<and> y < img_height img \<longrightarrow>
                  (\<exists>a. img_pixels img (x, y) = [255, 255, 255, a])"
  shows "encode_atlas img_name img i width height = ([], None)"
  unfolding encode_atlas_def
proof (intro for_each_silent)
  fix row col assume rc: "row \<in> set [0..<8]" "col \<in> set [0..<16]"
  have "encode_glyph img_name img width height row col = ([], None)"
    unfolding encode_glyph_def
  proof (intro for_each_silent encode_row_white)
    fix h w assume hw: "h \<in> set [1..<height]" "w \<in> set [1..<width]"
    have px: "pixel_array img (col * (width + 1) + w, row * (height + 1) + h)
           = Inr (img_pixels img (col * (width + 1) + w, row * (height + 1) + h))"
      using fits rc hw by (intro pixel_array_in_cell) simp_all
    then have "col * (width + 1) + w < img_width img \<and> row * (height + 1) + h < img_height img"
      by (simp add: pixel_array_def split: if_splits)
    with white px
    show "\<exists>a. pixel_array img (col * (width + 1) + w, row * (height + 1) + h)
               = Inr [255, 255, 255, a]"
      by simp
  qed
  then show "encode_slot img_name img i width height row col = ([], None)"
    by (simp add: encode_slot_def)
qed

section \<open>Properties of the encoder and the decoder\<close>

lemma levels_list:
  "List.enumerate 0 PIXEL_WIDTHS
     = [(0, 6), (1, 8), (2, 10), (3, 12), (4, 14), (5, 16), (6, 20), (7, 24), (8, 28), (9, 32)]"
  by (simp add: PIXEL_WIDTHS_def enumerate_eq_zip upt_rec)

lemma level_names:
  "img_name_of d 0 6 12 = d @ ''/0x00_6x12_0-127.png''"
  "img_name_of d 1 8 16 = d @ ''/0x01_8x16_0-127.png''"
  "img_name_of d (Suc 0) 8 16 = d @ ''/0x01_8x16_0-127.png''"
  "img_name_of d 2 10 20 = d @ ''/0x02_10x20_0-127.png''"
  "img_name_of d 3 12 24 = d @ ''/0x03_12x24_0-127.png''"
  "img_name_of d 4 14 28 = d @ ''/0x04_14x28_0-127.png''"
  "img_name_of d 5 16 32 = d @ ''/0x05_16x32_0-127.png''"
  "img_name_of d 6 20 40 = d @ ''/0x06_20x40_0-127.png''"
  "img_name_of d 7 24 48 = d @ ''/0x07_24x48_0-127.png''"
  "img_name_of d 8 28 56 = d @ ''/0x08_28x56_0-127.png''"
  "img_name_of d 9 32 64 = d @ ''/0x09_32x64_0-127.png''"
  by (simp_all add: img_name_of_def decimal02_def decimal.simps)

lemma spec_total: "spec_total_bytes = 122116"
  by (simp add: spec_total_bytes_def levels_list spec_level_bytes_def)

lemma encode_level_opened:
  assumes "dir (img_name_of d i width (width * 2)) = Some img"
  shows "encode_level dir d i width =
           (if fits img width (width * 2)
            then encode_atlas (img_name_of d i width (width * 2)) img i width (width * 2)
            else ([], Some (BadDimensions (img_name_of d i width (width * 2))
                              (img_width img) (img_height img))))"
  using assms by (auto simp: encode_level_def Let_def fits_def)

lemma fits_atlas_of: "fits (atlas_of width px) width (width * 2)"
  by (simp add: fits_def atlas_of_def)

lemma encode_level_white:
  assumes "dir (img_name_of d i width (width * 2)) = Some (atlas_of width (\<lambda>_. [255, 255, 255, 255]))"
  shows "encode_level dir d i width = ([], None)"
proof -
  have "encode_atlas (img_name_of d i width (width * 2))
          (atlas_of width (\<lambda>_. [255, 255, 255, 255])) i width (width * 2) = ([], None)"
    by (rule encode_atlas_white [OF fits_atlas_of]) (simp add: atlas_of_def)
  then show ?thesis
    using assms by (simp add: encode_level_opened [where dir = dir] fits_atlas_of)
qed

lemma encode_levels_white: "encode_levels white_atlases ''in'' = ([], None)"
  unfolding encode_levels_def levels_list
  by (intro for_each_silent)
     (auto intro!: encode_level_white simp: level_names white_atlases_def)

text \<open>
  Claim C3. For all-white atlases at every level the specification gives the output file
  a length of 122116 bytes (the sum over the levels of glyphs times rows times
  \<open>ceil((width - 1) / 8)\<close>). The code writes an empty file: every row is a run of 0 bits,
  for which \<open>bits_to_byte_array\<close> returns no byte at all.
\<close>

theorem all_white_atlases_encode_to_nothing:
  "encode_hzk_file \<lparr>pngs = white_atlases, hzks = Map.empty\<rparr> ''in'' ''font.hzk''
     = (\<lparr>pngs = white_atlases, hzks = [''font.hzk'' \<mapsto> []]\<rparr>, None)
   \<and> spec_total_bytes = 122116"
  by (simp add: encode_hzk_file_def encode_levels_white spec_total)

lemma encode_row_black:
  assumes "\<And>w. w \<in> set [1..<width] \<Longrightarrow>
      \<exists>a. pixel_array img (col * (width + 1) + w, row * (height + 1) + h) = Inr [0, 0, 0, a]"
  shows "encode_row img_name img width height row col h
           = (replicate (nat (msb_first_value
                (fst (bits_to_byte_array (replicate (width - 1) 1))))) 0, None)"
proof -
  have "collect_bits [1..<width]
      (\<lambda>w. sample img_name img (col * (width + 1) + w) (row * (height + 1) + h)) []
        = Inr ([] @ replicate (length [1..<width]) 1)"
  proof (rule collect_bits_constant)
    fix w assume "w \<in> set [1..<width]"
    from assms [OF this] obtain a where
      "pixel_array img (col * (width + 1) + w, row * (height + 1) + h) = Inr [0, 0, 0, a]"
      by blast
    from sample_rgba [OF this]
    show "sample img_name img (col * (width + 1) + w) (row * (height + 1) + h) = Inr 1"
      by simp
  qed
  then have "collect_bits [1..<width]
      (\<lambda>w. sample img_name img (col * (width + 1) + w) (row * (height + 1) + h)) []
        = Inr (replicate (width - 1) 1)"
    by simp
  from encode_row_result [OF this] show ?thesis .
qed

lemma no_padding_on_full_byte:
  "length bits mod 8 = 0 \<Longrightarrow> fst (bits_to_byte_array bits) = bits"
  by (simp add: bits_to_byte_array_list)

lemma five_ones_value: "msb_first_value (fst (bits_to_byte_array (replicate 5 1))) = 248"
  by code_simp

text \<open>
  Claim C2. In an all-black atlas of width 6 every row of every glyph is a run of five
  1 bits, which the specification packs to the one byte 0b11111000. The encoder writes
  248 zero bytes for such a row instead. (A run whose length is a multiple of 8 is indeed
  not padded.)
\<close>

theorem all_black_row:
  assumes "row < 8" and "col < 16" and "1 \<le> h" and "h < 12"
  shows "encode_row img_name (atlas_of 6 (\<lambda>_. [0, 0, 0, 255])) 6 12 row col h
           = (replicate 248 0, None)
         \<and> spec_pack_bits (replicate 5 1) = [0xF8]
         \<and> fst (encode_row img_name (atlas_of 6 (\<lambda>_. [0, 0, 0, 255])) 6 12 row col h)
             \<noteq> spec_pack_bits (replicate 5 1)
         \<and> fst (bits_to_byte_array (replicate 8 1)) = replicate 8 1"
proof -
  have "encode_row img_name (atlas_of 6 (\<lambda>_. [0, 0, 0, 255])) 6 12 row col h
          = (replicate (nat (msb_first_value
                (fst (bits_to_byte_array (replicate (6 - 1) 1))))) 0, None)"
  proof (rule encode_row_black)
    fix w assume "w \<in> set [1..<6]"
    then have "pixel_array (atlas_of 6 (\<lambda>_. [0, 0, 0, 255])) (col * (6 + 1) + w, row * (12 + 1) + h)
        = Inr (img_pixels (atlas_of 6 (\<lambda>_. [0, 0, 0, 255])) (col * (6 + 1) + w, row * (12 + 1) + h))"
      using assms fits_atlas_of [of 6] by (intro pixel_array_in_cell) simp_all
    then show "\<exists>a. pixel_array (atlas_of 6 (\<lambda>_. [0, 0, 0, 255]))
                 (col * (6 + 1) + w, row * (12 + 1) + h) = Inr [0, 0, 0, a]"
      by (simp add: atlas_of_def)
  qed
  then have row: "encode_row img_name (atlas_of 6 (\<lambda>_. [0, 0, 0, 255])) 6 12 row col h
          = (replicate 248 0, None)"
    by (simp add: five_ones_value)
  have spec: "spec_pack_bits (replicate 5 1) = [0xF8]"
    by code_simp
  have "length (replicate 248 (0::byte)) \<noteq> length [0xF8::byte]" by simp
  then have "replicate 248 (0::byte) \<noteq> [0xF8]" by metis
  moreover have "fst (bits_to_byte_array (replicate 8 1)) = replicate 8 1"
    by (rule no_padding_on_full_byte) simp
  ultimately show ?thesis using row spec by simp
qed

text \<open>The first row of the first glyph and the last row of the last glyph.\<close>

theorem all_black_row_witness:
  "encode_row ''in/0x00_6x12_0-127.png'' (atlas_of 6 (\<lambda>_. [0, 0, 0, 255])) 6 12 0 0 1
     = (replicate 248 0, None)
   \<and> encode_row ''in/0x00_6x12_0-127.png'' (atlas_of 6 (\<lambda>_. [0, 0, 0, 255])) 6 12 7 15 11
     = (replicate 248 0, None)"
  using all_black_row [of 0 0 1 "''in/0x00_6x12_0-127.png''"]
    all_black_row [of 7 15 11 "''in/0x00_6x12_0-127.png''"]
  by simp

text \<open>
  The bytes written do not determine the bits: two rows \<open>01\<close> and one row \<open>1\<close> both
  leave 128 zero bytes in the file.
\<close>

lemma zero_runs_ambiguous:
  "snd (bits_to_byte_array [0, 1]) = Inr (replicate 64 0)
   \<and> snd (bits_to_byte_array [1]) = Inr (replicate 64 0 @ replicate 64 0)"
  by code_simp

text \<open>
  Claim C7. Decoding the file the encoder produced should rebuild the atlas images. The
  decoder returns in the first pass of its loop: after encoding and then decoding, with
  any output directory, the images in the file system are exactly those that were there
  before, and no exception is raised.
\<close>

theorem decode_reconstructs_nothing:
  "decode_hzk_file (fst (encode_hzk_file fs d out)) out output_dir
     = (fst (encode_hzk_file fs d out), None)
   \<and> pngs (fst (encode_hzk_file fs d out)) = pngs fs"
  by (simp add: decode_hzk_file_def encode_hzk_file_def levels_list split: prod.splits)

lemma encode_level_depends_on_its_file:
  assumes "dir' (img_name_of d i width (width * 2)) = dir (img_name_of d i width (width * 2))"
  shows "encode_level dir' d i width = encode_level dir d i width"
  using assms by (simp add: encode_level_def Let_def)

lemma encode_levels_depend_on_atlases:
  assumes "\<forall>(i, width) \<in> set (List.enumerate 0 PIXEL_WIDTHS).
             dir' (img_name_of d i width (width * 2)) = dir (img_name_of d i width (width * 2))"
  shows "encode_levels dir' d = encode_levels dir d"
  unfolding encode_levels_def
  using assms by (intro for_each_cong_on) (auto intro: encode_level_depends_on_its_file)

text \<open>
  Claim C8. Encoding is deterministic. A second run on the file system the first run
  left behind produces the same output file and the same outcome; and the output file and
  the outcome depend on nothing but the ten atlas files of the input directory: neither on
  other images nor on what the output file or any other packed file held before.
\<close>

theorem encode_deterministic:
  "encode_hzk_file (fst (encode_hzk_file fs d out)) d out = encode_hzk_file fs d out
   \<and> ((\<forall>(i, width) \<in> set (List.enumerate 0 PIXEL_WIDTHS).
          pngs fs' (img_name_of d i width (width * 2)) = pngs fs (img_name_of d i width (width * 2)))
        \<longrightarrow> snd (encode_hzk_file fs' d out) = snd (encode_hzk_file fs d out)
            \<and> hzks (fst (encode_hzk_file fs' d out)) out = hzks (fst (encode_hzk_file fs d out)) out)"
proof (intro conjI impI)
  show "encode_hzk_file (fst (encode_hzk_file fs d out)) d out = encode_hzk_file fs d out"
    by (simp add: encode_hzk_file_def split: prod.splits)
next
  assume "\<forall>(i, width) \<in> set (List.enumerate 0 PIXEL_WIDTHS).
          pngs fs' (img_name_of d i width (width * 2)) = pngs fs (img_name_of d i width (width * 2))"
  then have eq: "encode_levels (pngs fs') d = encode_levels (pngs fs) d"
    by (rule encode_levels_depend_on_atlases)
  show "snd (encode_hzk_file fs' d out) = snd (encode_hzk_file fs d out)"
    by (simp add: encode_hzk_file_def eq split: prod.splits)
  show "hzks (fst (encode_hzk_file fs' d out)) out = hzks (fst (encode_hzk_file fs d out)) out"
    by (simp add: encode_hzk_file_def eq split: prod.splits)
qed

text \<open>
  Two file systems with the same ten atlases: one with a further image in the directory
  and an output file that already holds three bytes.
\<close>

theorem encode_deterministic_witness:
  "snd (encode_hzk_file
          \<lparr>pngs = white_atlases(''in/notes.png'' \<mapsto> atlas_of 6 (\<lambda>_. [0, 0, 0, 255])),
           hzks = [''font.hzk'' \<mapsto> [1, 2, 3]]\<rparr> ''in'' ''font.hzk'')
     = snd (encode_hzk_file \<lparr>pngs = white_atlases, hzks = Map.empty\<rparr> ''in'' ''font.hzk'')
   \<and> hzks (fst (encode_hzk_file
          \<lparr>pngs = white_atlases(''in/notes.png'' \<mapsto> atlas_of 6 (\<lambda>_. [0, 0, 0, 255])),
           hzks = [''font.hzk'' \<mapsto> [1, 2, 3]]\<rparr> ''in'' ''font.hzk'')) ''font.hzk''
     = hzks (fst (encode_hzk_file \<lparr>pngs = white_atlases, hzks = Map.empty\<rparr> ''in'' ''font.hzk''))
         ''font.hzk''
   \<and> encode_levels white_atlases ''in'' = ([], None)"
  using encode_deterministic [of "\<lparr>pngs = white_atlases, hzks = Map.empty\<rparr>" "''in''" "''font.hzk''"
      "\<lparr>pngs = white_atlases(''in/notes.png'' \<mapsto> atlas_of 6 (\<lambda>_. [0, 0, 0, 255])),
           hzks = [''font.hzk'' \<mapsto> [1, 2, 3]]\<rparr>"]
  by (simp add: levels_list level_names encode_levels_white)

lemma level_nth:
  "k < length PIXEL_WIDTHS \<Longrightarrow> List.enumerate 0 PIXEL_WIDTHS ! k = (k, PIXEL_WIDTHS ! k)"
  by (simp add: nth_enumerate_eq)

lemma encode_levels_stop:
  assumes k: "k < length PIXEL_WIDTHS"
    and before: "\<forall>j<k. snd (encode_level dir d j (PIXEL_WIDTHS ! j)) = None"
    and at: "snd (encode_level dir d k (PIXEL_WIDTHS ! k)) = Some e"
  shows "encode_levels dir d
           = (concat (map (\<lambda>j. fst (encode_level dir d j (PIXEL_WIDTHS ! j))) [0..<k])
                @ fst (encode_level dir d k (PIXEL_WIDTHS ! k)), Some e)"
proof -
  let ?body = "\<lambda>(i, width). encode_level dir d i width"
  let ?levels = "List.enumerate 0 PIXEL_WIDTHS"
  have len: "k < length ?levels" using k by simp
  have pre: "snd (?body (?levels ! j)) = None" if "j < k" for j
    using that k before by (simp add: level_nth)
  have cur: "snd (?body (?levels ! k)) = Some e"
    using k at by (simp add: level_nth)
  have "map (\<lambda>x. fst (?body x)) (take k ?levels)
          = map (\<lambda>j. fst (encode_level dir d j (PIXEL_WIDTHS ! j))) [0..<k]"
    using k by (simp add: list_eq_iff_nth_eq level_nth)
  with for_each_stops [of k ?levels ?body e, OF len pre cur] k
  show ?thesis by (simp add: encode_levels_def level_nth)
qed

lemma pixel_array_error: "pixel_array img xy = Inl e \<Longrightarrow> e = PixelIndexError"
  by (cases xy) (simp add: pixel_array_def split: if_splits)

lemma sample_error_kinds:
  "case sample img_name img x y of
     Inl e \<Rightarrow> e = PixelIndexError \<or> (\<exists>k. e = UnpackError k)
               \<or> (\<exists>r g b. e = InvalidImage img_name r g b)
   | Inr b \<Rightarrow> True"
proof (cases "pixel_array img (x, y)")
  case (Inl e)
  then show ?thesis by (simp add: sample_def pixel_array_error)
next
  case (Inr px)
  then show ?thesis by (simp add: sample_def split: list.split)
qed

lemma sample_no_dimension_error: "sample img_name img x y \<noteq> Inl (BadDimensions n w h)"
  using sample_error_kinds [of img_name img x y] by (auto split: sum.splits)

lemma encode_atlas_no_dimension_error:
  "snd (encode_atlas img_name img i width height) \<noteq> Some (BadDimensions n w h)"
proof
  assume err: "snd (encode_atlas img_name img i width height) = Some (BadDimensions n w h)"
  then obtain row where
    "snd (for_each [0..<16] (\<lambda>col. encode_slot img_name img i width height row col))
       = Some (BadDimensions n w h)"
    unfolding encode_atlas_def by (blast dest: for_each_error_from_body)
  then obtain col where
    "snd (encode_slot img_name img i width height row col) = Some (BadDimensions n w h)"
    by (blast dest: for_each_error_from_body)
  then have "snd (encode_glyph img_name img width height row col) = Some (BadDimensions n w h)"
    by (simp add: encode_slot_def split: if_splits)
  then obtain h' where
    "snd (encode_row img_name img width height row col h') = Some (BadDimensions n w h)"
    unfolding encode_glyph_def by (blast dest: for_each_error_from_body)
  from encode_row_error [OF this] show False
    by (simp add: sample_no_dimension_error)
qed

text \<open>
  Claim C4. At level \<open>k\<close>, reached because the levels before it completed, the encoder
  expects an image of width \<open>(width + 1) * 16 + 1\<close> and height \<open>(height + 1) * 8 + 1\<close>
  with \<open>height = width * 2\<close>. If the opened image differs in either, the whole encode ends
  with the dimension error that names the file and the image's dimensions, and the output
  holds the bytes of the levels before \<open>k\<close> only. If the image has the expected dimensions,
  the level raises no dimension error.
\<close>

theorem dimension_gate:
  assumes "k < length PIXEL_WIDTHS" and "width = PIXEL_WIDTHS ! k" and "height = width * 2"
    and "\<forall>j<k. snd (encode_level (pngs fs) d j (PIXEL_WIDTHS ! j)) = None"
    and "pngs fs (img_name_of d k width height) = Some img"
  shows "if img_width img = (width + 1) * 16 + 1 \<and> img_height img = (height + 1) * 8 + 1
         then \<forall>n w h. snd (encode_level (pngs fs) d k width) \<noteq> Some (BadDimensions n w h)
         else snd (encode_hzk_file fs d out)
                = Some (BadDimensions (img_name_of d k width height) (img_width img) (img_height img))
              \<and> hzks (fst (encode_hzk_file fs d out)) out
                = Some (concat (map (\<lambda>j. fst (encode_level (pngs fs) d j (PIXEL_WIDTHS ! j)))
                                   [0..<k]))"
proof (cases "fits img width height")
  case True
  have "encode_level (pngs fs) d k width = encode_atlas (img_name_of d k width height) img k width height"
    using assms(3,5) True by (simp add: encode_level_opened [where dir = "pngs fs"])
  with True show ?thesis
    by (simp add: fits_def encode_atlas_no_dimension_error)
next
  case False
  have lvl: "encode_level (pngs fs) d k (PIXEL_WIDTHS ! k)
          = ([], Some (BadDimensions (img_name_of d k width height) (img_width img) (img_height img)))"
    using assms(2,3,5) False by (simp add: encode_level_opened [where dir = "pngs fs"])
  then have "snd (encode_level (pngs fs) d k (PIXEL_WIDTHS ! k))
          = Some (BadDimensions (img_name_of d k width height) (img_width img) (img_height img))"
    by simp
  from encode_levels_stop [OF assms(1) assms(4) this] lvl
  have "encode_levels (pngs fs) d
          = (concat (map (\<lambda>j. fst (encode_level (pngs fs) d j (PIXEL_WIDTHS ! j))) [0..<k]),
             Some (BadDimensions (img_name_of d k width height) (img_width img) (img_height img)))"
    by simp
  then have "encode_hzk_file fs d out
          = (fs\<lparr>hzks := (hzks fs)(out \<mapsto>
                 concat (map (\<lambda>j. fst (encode_level (pngs fs) d j (PIXEL_WIDTHS ! j))) [0..<k]))\<rparr>,
             Some (BadDimensions (img_name_of d k width height) (img_width img) (img_height img)))"
    by (simp add: encode_hzk_file_def)
  moreover have "\<not> (img_width img = (width + 1) * 16 + 1 \<and> img_height img = (height + 1) * 8 + 1)"
    using False by (simp add: fits_def)
  ultimately show ?thesis
    by (simp only: if_False fst_conv snd_conv) simp
qed

text \<open>
  A directory whose second atlas is one pixel too wide (146 for 145), and the all-white
  directory for the case of matching dimensions.
\<close>

theorem dimension_gate_witness:
  "snd (encode_hzk_file
          \<lparr>pngs = white_atlases(''in/0x01_8x16_0-127.png'' \<mapsto>
                    \<lparr>img_width = 146, img_height = 137, img_pixels = \<lambda>_. [255, 255, 255, 255]\<rparr>),
           hzks = Map.empty\<rparr> ''in'' ''font.hzk'')
     = Some (BadDimensions ''in/0x01_8x16_0-127.png'' 146 137)
   \<and> hzks (fst (encode_hzk_file
          \<lparr>pngs = white_atlases(''in/0x01_8x16_0-127.png'' \<mapsto>
                    \<lparr>img_width = 146, img_height = 137, img_pixels = \<lambda>_. [255, 255, 255, 255]\<rparr>),
           hzks = Map.empty\<rparr> ''in'' ''font.hzk'')) ''font.hzk'' = Some []
   \<and> (\<forall>n w h. snd (encode_level white_atlases ''in'' 0 6) \<noteq> Some (BadDimensions n w h))"
proof -
  let ?img = "\<lparr>img_width = 146, img_height = 137, img_pixels = \<lambda>_. [255, 255, 255, 255]\<rparr>"
  let ?dir = "white_atlases(''in/0x01_8x16_0-127.png'' \<mapsto> ?img)"
  let ?fs = "\<lparr>pngs = ?dir, hzks = Map.empty\<rparr>"
  have first: "encode_level ?dir ''in'' 0 6 = ([], None)"
    by (rule encode_level_white) (simp add: level_names white_atlases_def)
  have widths: "PIXEL_WIDTHS ! 0 = 6" "PIXEL_WIDTHS ! 1 = 8" "length PIXEL_WIDTHS = 10"
    by (simp_all add: PIXEL_WIDTHS_def)
  have k: "1 < length PIXEL_WIDTHS" and w: "8 = PIXEL_WIDTHS ! 1" and h: "(16::nat) = 8 * 2"
    by (simp_all add: PIXEL_WIDTHS_def)
  have before: "\<forall>j<1. snd (encode_level (pngs ?fs) ''in'' j (PIXEL_WIDTHS ! j)) = None"
    using first by (simp add: widths)
  have opened: "pngs ?fs (img_name_of ''in'' 1 8 16) = Some ?img"
    by (simp add: level_names)
  have k0: "0 < length PIXEL_WIDTHS" and w0: "6 = PIXEL_WIDTHS ! 0" and h0: "(12::nat) = 6 * 2"
    by (simp_all add: PIXEL_WIDTHS_def)
  have opened0: "pngs \<lparr>pngs = white_atlases, hzks = Map.empty\<rparr> (img_name_of ''in'' 0 6 12)
                   = Some (atlas_of 6 (\<lambda>_. [255, 255, 255, 255]))"
    by (simp add: level_names white_atlases_def)
  show ?thesis
    using dimension_gate [OF k w h before opened, of "''font.hzk''"]
      dimension_gate [OF k0 w0 h0 _ opened0, of "''font.hzk''"]
    by (simp add: first widths level_names atlas_of_def)
qed










end
